theory Spec2Isabelle
  imports Complex_Main "HOL-Library.Word"
begin

section \<open>The audio-reactive pipeline of script.js\<close>

text \<open>
  The development embeds \<^verbatim>\<open>setAudioMeter\<close>, \<^verbatim>\<open>updateAudioReactive\<close> and the
  part of \<^verbatim>\<open>frame\<close> that drives them.

  Numbers. A JavaScript Number is modelled as a \<^typ>\<open>real\<close>. In the model of the whole
  function every product, sum and quotient is exact; where the source would compute
  \<^verbatim>\<open>Infinity\<close> or \<^verbatim>\<open>NaN\<close> (a division by zero, a read outside the typed array) the
  model returns the fault \<open>NotFinite\<close> instead of a number. Loop indices
  (\<^verbatim>\<open>Math.floor\<close> results) are \<^typ>\<open>int\<close>; a bin of the \<^verbatim>\<open>Uint8Array\<close> is an
  \<^typ>\<open>8 word\<close>.

  The statements that keep the bass, the beat history and its running sum (lines 232, 256
  and 259--264) are modelled a second time with every operation rounded as binary64
  arithmetic rounds it, because what the running sum equals depends on that rounding.
\<close>

subsection \<open>Host objects and module state\<close>

type_synonym byte = "8 word"

text \<open>
  What \<^verbatim>\<open>updateAudioReactive\<close> reads from the host at one call:
  \<^item> \<open>analyserNode\<close>: the module variable is non-null;
  \<^item> \<open>frequencyData\<close>: \<open>None\<close> for null, otherwise the contents of the array once
    \<^verbatim>\<open>getByteFrequencyData\<close> has filled it for this call;
  \<^item> \<open>audioElement\<close>: \<open>None\<close> when the element is missing, otherwise its
    \<^verbatim>\<open>paused\<close> flag;
  \<^item> \<open>audioContext\<close>: \<open>None\<close> for null, otherwise its \<^verbatim>\<open>sampleRate\<close>;
  \<^item> \<open>audioMeterFill\<close>: the meter element exists.
\<close>

record host =
  analyserNode :: bool
  frequencyData :: "byte list option"
  audioElement :: "bool option"
  audioContext :: "real option"
  audioMeterFill :: bool

text \<open>
  The module-level variables of lines 26--33, and the two style properties of the meter
  element that \<^verbatim>\<open>setAudioMeter\<close> writes (\<open>None\<close> until the first write): the scale of
  \<^verbatim>\<open>transform\<close> and \<^verbatim>\<open>opacity\<close>. \<open>beatHistory\<close> is in array order, oldest first.
  \<open>initial\<close> holds the variables as declared; the call \<^verbatim>\<open>setAudioMeter(0.03)\<close> of line
  899, before the first frame, writes the meter style only.
\<close>

record state =
  audioLevel :: real
  audioBass :: real
  beatPulse :: real
  beatGateUntil :: real
  beatHistorySum :: real
  beatHistory :: "real list"
  meterStyle :: "(real \<times> real) option"

definition initial :: state where
  "initial = \<lparr>audioLevel = 0, audioBass = 0, beatPulse = 0, beatGateUntil = 0,
     beatHistorySum = 0, beatHistory = [], meterStyle = None\<rparr>"

datatype fault = TypeError | NotFinite

subsection \<open>setAudioMeter (lines 117--125)\<close>

definition setAudioMeter :: "host \<Rightarrow> real \<Rightarrow> state \<Rightarrow> state" where
  "setAudioMeter h level s =
     (if \<not> audioMeterFill h then s
      else let clamped = max 0.03 (min 1 level)
           in s\<lparr>meterStyle := Some (clamped, 0.3 + clamped * 0.7)\<rparr>)"

subsection \<open>updateAudioReactive (lines 227--276)\<close>

text \<open>Line 230: the guard of the early return.\<close>

definition audioUnavailable :: "host \<Rightarrow> bool" where
  "audioUnavailable h \<longleftrightarrow>
     \<not> analyserNode h \<or> frequencyData h = None \<or> audioElement h = None
     \<or> audioElement h = Some True"

text \<open>
  \<^verbatim>\<open>frequencyData[i]\<close>: \<open>None\<close> stands for \<^verbatim>\<open>undefined\<close>, the value of a typed array
  outside its bounds.
\<close>

definition binAt :: "byte list \<Rightarrow> int \<Rightarrow> int option" where
  "binAt fd i = (if 0 \<le> i \<and> i < int (length fd) then Some (uint (fd ! nat i)) else None)"

text \<open>
  The two summation loops (lines 244--247 and 250--253),
  \<^verbatim>\<open>for (let i = start; i <= end; i += 1) sum += frequencyData[i]\<close>,
  with the accumulator as argument. Adding \<^verbatim>\<open>undefined\<close> gives \<^verbatim>\<open>NaN\<close>, which stays
  \<^verbatim>\<open>NaN\<close>: the result is \<open>None\<close>.
\<close>

function sumBins :: "byte list \<Rightarrow> int \<Rightarrow> int \<Rightarrow> int \<Rightarrow> int option" where
  "sumBins fd i e acc =
     (if i \<le> e
      then (case binAt fd i of None \<Rightarrow> None | Some b \<Rightarrow> sumBins fd (i + 1) e (acc + b))
      else Some acc)"
  by pat_completeness auto
termination
  by (relation "measure (\<lambda>(fd, i, e, acc). nat (e + 1 - i))") auto

declare sumBins.simps [simp del]

text \<open>
  Lines 239--254: the three bin indices and the two band averages
  \<open>(bassValue, bodyValue)\<close>. With a sample rate of 0 or an empty array the source divides
  by zero.
\<close>

definition bandValues :: "real \<Rightarrow> byte list \<Rightarrow> fault + (real \<times> real)" where
  "bandValues sampleRate fd =
     (if sampleRate = 0 \<or> fd = [] then Inl NotFinite
      else
        let n = int (length fd);
            hzPerBin = (sampleRate * 0.5) / real_of_int n;
            bassStart = max 0 \<lfloor>30 / hzPerBin\<rfloor>;
            bassEnd = min (n - 1) \<lfloor>180 / hzPerBin\<rfloor>;
            bodyEnd = min (n - 1) \<lfloor>1800 / hzPerBin\<rfloor>
        in case sumBins fd bassStart bassEnd 0 of
             None \<Rightarrow> Inl NotFinite
           | Some bassSum \<Rightarrow>
               (case sumBins fd 0 bodyEnd 0 of
                  None \<Rightarrow> Inl NotFinite
                | Some bodySum \<Rightarrow>
                    Inr (real_of_int bassSum / (real_of_int (max 1 (bassEnd - bassStart + 1)) * 255),
                         real_of_int bodySum / (real_of_int (max 1 (bodyEnd + 1)) * 255))))"

text \<open>Lines 256--257.\<close>

definition smooth :: "real \<Rightarrow> real \<Rightarrow> state \<Rightarrow> state" where
  "smooth bassValue bodyValue s =
     (let s1 = s\<lparr>audioBass := audioBass s * 0.72 + bassValue * 0.28\<rparr>
      in s1\<lparr>audioLevel := audioLevel s1 * 0.84 + bodyValue * 0.16\<rparr>)"

text \<open>
  Lines 259--264: \<^verbatim>\<open>push\<close> appends, \<^verbatim>\<open>shift\<close> removes and returns the first element.
  Here \<^verbatim>\<open>+=\<close> and \<^verbatim>\<open>-=\<close> are exact; \<open>pushHistoryD\<close> below is the same code with both
  rounded.
\<close>

definition pushHistory :: "state \<Rightarrow> state" where
  "pushHistory s =
     (let s1 = s\<lparr>beatHistory := beatHistory s @ [audioBass s]\<rparr>;
          s2 = s1\<lparr>beatHistorySum := beatHistorySum s1 + audioBass s1\<rparr>
      in if length (beatHistory s2) > 42
         then s2\<lparr>beatHistorySum := beatHistorySum s2 - hd (beatHistory s2),
                 beatHistory := tl (beatHistory s2)\<rparr>
         else s2)"

text \<open>Lines 266--267.\<close>

definition threshold :: "state \<Rightarrow> real" where
  "threshold s =
     (let averageBass = (if length (beatHistory s) > 0
                         then beatHistorySum s / real (length (beatHistory s)) else 0)
      in max 0.14 (averageBass * 1.32))"

text \<open>Line 268: the condition under which a beat is triggered.\<close>

definition beatCondition :: "real \<Rightarrow> state \<Rightarrow> bool" where
  "beatCondition timeSeconds s \<longleftrightarrow> audioBass s > threshold s \<and> timeSeconds > beatGateUntil s"

text \<open>Lines 268--273.\<close>

definition detectBeat :: "real \<Rightarrow> state \<Rightarrow> state" where
  "detectBeat timeSeconds s =
     (if beatCondition timeSeconds s
      then s\<lparr>beatPulse := 1, beatGateUntil := timeSeconds + 0.17\<rparr>
      else s\<lparr>beatPulse := beatPulse s * 0.95\<rparr>)"

text \<open>
  The whole function. Reading \<^verbatim>\<open>audioContext.sampleRate\<close> from a null context throws a
  \<^verbatim>\<open>TypeError\<close>.
\<close>

definition updateAudioReactive :: "real \<Rightarrow> host \<Rightarrow> state \<Rightarrow> fault + state" where
  "updateAudioReactive timeSeconds h s0 =
     (let s = s0\<lparr>beatPulse := beatPulse s0 * 0.9\<rparr>
      in if audioUnavailable h
         then (let s1 = s\<lparr>audioLevel := audioLevel s * 0.92\<rparr>;
                   s2 = s1\<lparr>audioBass := audioBass s1 * 0.9\<rparr>
               in Inr (setAudioMeter h (audioLevel s2 * 1.15 + beatPulse s2 * 0.35) s2))
         else (case (frequencyData h, audioContext h) of
                 (Some fd, Some sampleRate) \<Rightarrow>
                   (case bandValues sampleRate fd of
                      Inl e \<Rightarrow> Inl e
                    | Inr (bassValue, bodyValue) \<Rightarrow>
                        (let s3 = detectBeat timeSeconds
                                    (pushHistory (smooth bassValue bodyValue s))
                         in Inr (setAudioMeter h (audioLevel s3 * 1.4 + beatPulse s3 * 0.5) s3)))
               | _ \<Rightarrow> Inl TypeError))"

text \<open>
  Whether the call \<^verbatim>\<open>updateAudioReactive(timeSeconds)\<close> takes the branch of lines
  269--270: audio is available and the condition of line 268 holds in the state the
  function has reached there.
\<close>

definition beatTriggered :: "real \<Rightarrow> host \<Rightarrow> state \<Rightarrow> bool" where
  "beatTriggered timeSeconds h s0 \<longleftrightarrow>
     \<not> audioUnavailable h \<and>
     (case (frequencyData h, audioContext h) of
        (Some fd, Some sampleRate) \<Rightarrow>
          (case bandValues sampleRate fd of
             Inl e \<Rightarrow> False
           | Inr (bassValue, bodyValue) \<Rightarrow>
               beatCondition timeSeconds
                 (pushHistory (smooth bassValue bodyValue (s0\<lparr>beatPulse := beatPulse s0 * 0.9\<rparr>))))
      | _ \<Rightarrow> False)"

subsection \<open>frame (lines 806--813)\<close>

text \<open>
  Successive calls of \<^verbatim>\<open>frame(time)\<close>, each with the host as it is at that call. Of the
  body, \<^verbatim>\<open>seconds = time * 0.001\<close> and \<^verbatim>\<open>updateAudioReactive(seconds)\<close> are modelled; the
  render calls after it only read the state. An exception leaves \<^verbatim>\<open>frame\<close> before
  \<^verbatim>\<open>requestAnimationFrame\<close>, so no later call happens.
\<close>

fun frames :: "(real \<times> host) list \<Rightarrow> state \<Rightarrow> fault + state" where
  "frames [] s = Inr s"
| "frames ((time, h) # rest) s =
     (case updateAudioReactive (time * 0.001) h s of
        Inl e \<Rightarrow> Inl e
      | Inr s' \<Rightarrow> frames rest s')"

text \<open>The timestamps (in seconds) of the calls that trigger a beat, in order.\<close>

fun beatTimes :: "(real \<times> host) list \<Rightarrow> state \<Rightarrow> real list" where
  "beatTimes [] s = []"
| "beatTimes ((time, h) # rest) s =
     (case updateAudioReactive (time * 0.001) h s of
        Inl e \<Rightarrow> []
      | Inr s' \<Rightarrow> (if beatTriggered (time * 0.001) h s then [time * 0.001] else [])
                   @ beatTimes rest s')"

text \<open>
  A host on which the audio branch computes with ordinary numbers: whenever audio is
  available, the context exists with a positive sample rate and the array is not empty.
\<close>

definition hostOk :: "host \<Rightarrow> bool" where
  "hostOk h \<longleftrightarrow>
     audioUnavailable h \<or>
     (case (frequencyData h, audioContext h) of
        (Some fd, Some sampleRate) \<Rightarrow> 0 < sampleRate \<and> fd \<noteq> []
      | _ \<Rightarrow> False)"

subsection \<open>Lines 232, 256 and 259--264 in binary64 arithmetic\<close>

text \<open>
  \<open>toDouble x\<close> is the binary64 number nearest to \<open>x\<close>, ties to the even significand:
  \<open>ulp x\<close> is the power of two for which \<open>x / ulp x\<close> lies in \<open>[2 ^ 52, 2 ^ 53)\<close>, the
  spacing of the doubles around \<open>x\<close>, and \<open>x\<close> is rounded to the nearest multiple of it.
  The exponent is not bounded: overflow, subnormal numbers, \<^verbatim>\<open>NaN\<close> and the sign of zero
  are not represented. The magnitudes met below lie between \<open>2 ^ -22\<close> and 1.
\<close>

definition nearestEven :: "real \<Rightarrow> int" where
  "nearestEven y =
     (let f = \<lfloor>y\<rfloor>; r = y - real_of_int f
      in if r < 1 / 2 then f else if 1 / 2 < r then f + 1 else if even f then f else f + 1)"

function ulp :: "real \<Rightarrow> real" where
  "ulp x = (if 2 ^ 53 \<le> x then 2 * ulp (x / 2)
            else if 0 < x \<and> x < 2 ^ 52 then ulp (2 * x) / 2
            else 1)"
  by pat_completeness auto
termination
proof (relation "measure (\<lambda>x. if 2 ^ 53 \<le> x then nat \<lfloor>x\<rfloor> else nat \<lceil>2 ^ 53 / x\<rceil>)")
  show "wf (measure (\<lambda>x::real. if 2 ^ 53 \<le> x then nat \<lfloor>x\<rfloor> else nat \<lceil>2 ^ 53 / x\<rceil>))"
    by simp
next
  fix x :: real
  assume a: "2 ^ 53 \<le> x"
  show "(x / 2, x) \<in> measure (\<lambda>x. if 2 ^ 53 \<le> x then nat \<lfloor>x\<rfloor> else nat \<lceil>2 ^ 53 / x\<rceil>)"
  proof (cases "2 ^ 53 \<le> x / 2")
    case True
    have "(2::real) \<le> x" using a by simp
    then have "\<lfloor>x / 2\<rfloor> < \<lfloor>x\<rfloor>" by linarith
    moreover have "0 \<le> \<lfloor>x / 2\<rfloor>" using a by simp
    ultimately show ?thesis using True a by simp
  next
    case False
    have "2 ^ 53 / (x / 2) \<le> 2" using a by (simp add: divide_le_eq)
    then have "\<lceil>2 ^ 53 / (x / 2)\<rceil> \<le> 2" by (simp add: ceiling_le_iff)
    moreover have "(3::real) \<le> x" using a by simp
    then have "3 \<le> \<lfloor>x\<rfloor>" by (simp add: le_floor_iff)
    ultimately have "nat \<lceil>2 ^ 53 / (x / 2)\<rceil> < nat \<lfloor>x\<rfloor>" by linarith
    then show ?thesis using False a by simp
  qed
next
  fix x :: real
  assume a: "\<not> 2 ^ 53 \<le> x" "0 < x \<and> x < 2 ^ 52"
  then have b: "\<not> 2 ^ 53 \<le> 2 * x" by simp
  define y where "y = 2 ^ 53 / (2 * x)"
  have y: "1 < y" using a by (simp add: y_def)
  have "2 ^ 53 / x = 2 * y" using a by (simp add: y_def)
  moreover have "\<lceil>y\<rceil> < \<lceil>2 * y\<rceil>" using y by linarith
  moreover have "0 < \<lceil>y\<rceil>" using y by linarith
  ultimately show "(2 * x, x) \<in> measure (\<lambda>x. if 2 ^ 53 \<le> x then nat \<lfloor>x\<rfloor> else nat \<lceil>2 ^ 53 / x\<rceil>)"
    using a b by (simp add: y_def)
qed

declare ulp.simps [simp del]

definition roundTo :: "real \<Rightarrow> real \<Rightarrow> real" where
  "roundTo u x = real_of_int (nearestEven (x / u)) * u"

definition toDouble :: "real \<Rightarrow> real" where
  "toDouble x = (if x = 0 then 0 else roundTo (ulp \<bar>x\<bar>) x)"

text \<open>
  A decimal literal of the source denotes the nearest double, and each \<^verbatim>\<open>*\<close>, \<^verbatim>\<open>+\<close>
  and \<^verbatim>\<open>-\<close> rounds its exact result once. Line 256, line 232 and lines 259--264:
\<close>

definition smoothBassD :: "real \<Rightarrow> state \<Rightarrow> state" where
  "smoothBassD bassValue s =
     s\<lparr>audioBass := toDouble (toDouble (audioBass s * toDouble 0.72)
                                 + toDouble (bassValue * toDouble 0.28))\<rparr>"

definition decayBassD :: "state \<Rightarrow> state" where
  "decayBassD s = s\<lparr>audioBass := toDouble (audioBass s * toDouble 0.9)\<rparr>"

definition pushHistoryD :: "state \<Rightarrow> state" where
  "pushHistoryD s =
     (let s1 = s\<lparr>beatHistory := beatHistory s @ [audioBass s]\<rparr>;
          s2 = s1\<lparr>beatHistorySum := toDouble (beatHistorySum s1 + audioBass s1)\<rparr>
      in if length (beatHistory s2) > 42
         then s2\<lparr>beatHistorySum := toDouble (beatHistorySum s2 - hd (beatHistory s2)),
                 beatHistory := tl (beatHistory s2)\<rparr>
         else s2)"



subsection \<open>The specification's own words\<close>

text \<open>
  The Band Energy Extractor as section 4.2 describes it. A band from \<open>lowHz\<close> to
  \<open>highHz\<close> is the range of bin indices from \<open>floor (lowHz / hzPerBin)\<close> to
  \<open>floor (highHz / hzPerBin)\<close>, clamped to \<open>[0, binCount - 1]\<close>: the part of that range
  inside \<open>[0, binCount - 1]\<close>, which is empty when the lower index lies above
  \<open>binCount - 1\<close>. The band energy is the average of the magnitudes, each divided by 255,
  over the range, with divisor 1 for a range of zero width.
\<close>

definition specRange :: "real \<Rightarrow> real \<Rightarrow> real \<Rightarrow> nat \<Rightarrow> int \<times> int" where
  "specRange lowHz highHz sampleRate binCount =
     (let hzPerBin = (sampleRate / 2) / real binCount
      in (max 0 \<lfloor>lowHz / hzPerBin\<rfloor>, min (int binCount - 1) \<lfloor>highHz / hzPerBin\<rfloor>))"

definition specAverage :: "byte list \<Rightarrow> int \<times> int \<Rightarrow> real" where
  "specAverage fd r =
     (case r of (lo, hi) \<Rightarrow>
        let width = length [lo..hi]
        in (\<Sum>i\<leftarrow>[lo..hi]. real_of_int (uint (fd ! nat i)) / 255)
           / (if width = 0 then 1 else real width))"

text \<open>\<open>clamp x lo hi\<close> of section 4.5.\<close>

definition clamp :: "real \<Rightarrow> real \<Rightarrow> real \<Rightarrow> real" where
  "clamp x lo hi = (if x < lo then lo else if hi < x then hi else x)"

text \<open>The invariant of BeatHistory stated in section 3.\<close>

definition historyInv :: "state \<Rightarrow> bool" where
  "historyInv s \<longleftrightarrow>
     length (beatHistory s) \<le> 42 \<and> beatHistorySum s = sum_list (beatHistory s)"

subsection \<open>Hosts used in the examples\<close>

text \<open>
  \<open>pausedHost\<close>: the audio engine exists and the element is paused. \<open>liveHost fd\<close>: the
  element is playing at a sample rate of 48000 Hz and the analyser has delivered \<open>fd\<close>.
\<close>

definition pausedHost :: host where
  "pausedHost = \<lparr>analyserNode = True, frequencyData = Some [0, 0], audioElement = Some True,
     audioContext = Some 48000, audioMeterFill = True\<rparr>"

definition liveHost :: "byte list \<Rightarrow> host" where
  "liveHost fd = \<lparr>analyserNode = True, frequencyData = Some fd, audioElement = Some False,
     audioContext = Some 48000, audioMeterFill = True\<rparr>"

section \<open>Auxiliary lemmas\<close>

subsection \<open>The summation loops and the band averages\<close>

lemma binAt_range:
  "0 \<le> i \<Longrightarrow> i < int (length fd) \<Longrightarrow> \<exists>b. binAt fd i = Some b \<and> 0 \<le> b \<and> b \<le> 255"
  using uint_lt2p [of "fd ! nat i"] by (simp add: binAt_def)

lemma sumBins_range:
  "0 \<le> i \<Longrightarrow> e < int (length fd) \<Longrightarrow>
   \<exists>r. sumBins fd i e acc = Some r \<and> acc \<le> r \<and> r \<le> acc + 255 * max 0 (e + 1 - i)"
proof (induction fd i e acc rule: sumBins.induct)
  case (1 fd i e acc)
  show ?case
  proof (cases "i \<le> e")
    case False
    then show ?thesis by (simp add: sumBins.simps [of fd i e acc])
  next
    case True
    with 1 obtain b where b: "binAt fd i = Some b" "0 \<le> b" "b \<le> 255"
      using binAt_range [of i fd] by auto
    from 1 True b obtain r where r: "sumBins fd (i + 1) e (acc + b) = Some r"
      "acc + b \<le> r" "r \<le> acc + b + 255 * max 0 (e + 1 - (i + 1))"
      by fastforce
    show ?thesis using True b r by (simp add: sumBins.simps [of fd i e acc])
  qed
qed

lemma avg_unit:
  fixes r :: int
  assumes "0 \<le> r" "r \<le> 255 * max 0 c"
  shows "0 \<le> real_of_int r / (real_of_int (max 1 c) * 255)"
    and "real_of_int r / (real_of_int (max 1 c) * 255) \<le> 1"
proof -
  have pos: "0 < real_of_int (max 1 c) * 255" by simp
  show "0 \<le> real_of_int r / (real_of_int (max 1 c) * 255)"
    using assms(1) pos by simp
  have "r \<le> max 1 c * 255" using assms(2) by (simp add: max_def split: if_splits)
  then have "real_of_int r \<le> real_of_int (max 1 c * 255)" by (rule of_int_le_iff [THEN iffD2])
  then have "real_of_int r \<le> real_of_int (max 1 c) * 255" by simp
  then show "real_of_int r / (real_of_int (max 1 c) * 255) \<le> 1"
    using pos by (simp add: divide_le_eq)
qed

lemma bandValues_unit:
  assumes "0 < sampleRate" "fd \<noteq> []"
  shows "\<exists>bassValue bodyValue. bandValues sampleRate fd = Inr (bassValue, bodyValue)
           \<and> 0 \<le> bassValue \<and> bassValue \<le> 1 \<and> 0 \<le> bodyValue \<and> bodyValue \<le> 1"
proof -
  define n where "n = int (length fd)"
  define hzPerBin where "hzPerBin = (sampleRate * 0.5) / real_of_int n"
  define bassStart where "bassStart = max 0 \<lfloor>30 / hzPerBin\<rfloor>"
  define bassEnd where "bassEnd = min (n - 1) \<lfloor>180 / hzPerBin\<rfloor>"
  define bodyEnd where "bodyEnd = min (n - 1) \<lfloor>1800 / hzPerBin\<rfloor>"
  have n: "0 < n" using assms(2) by (simp add: n_def)
  have "0 \<le> bassStart" by (simp add: bassStart_def)
  moreover have "bassEnd < int (length fd)" by (simp add: bassEnd_def n_def)
  ultimately obtain bassSum where bs: "sumBins fd bassStart bassEnd 0 = Some bassSum"
    "0 \<le> bassSum" "bassSum \<le> 255 * max 0 (bassEnd - bassStart + 1)"
    using sumBins_range [of bassStart bassEnd fd 0] by (auto simp: algebra_simps)
  have "bodyEnd < int (length fd)" by (simp add: bodyEnd_def n_def)
  then obtain bodySum where bo: "sumBins fd 0 bodyEnd 0 = Some bodySum"
    "0 \<le> bodySum" "bodySum \<le> 255 * max 0 (bodyEnd + 1)"
    using sumBins_range [of 0 bodyEnd fd 0] by (auto simp: algebra_simps)
  have eq: "bandValues sampleRate fd =
      Inr (real_of_int bassSum / (real_of_int (max 1 (bassEnd - bassStart + 1)) * 255),
           real_of_int bodySum / (real_of_int (max 1 (bodyEnd + 1)) * 255))"
    using assms bs(1) bo(1)
    unfolding bandValues_def Let_def n_def [symmetric] hzPerBin_def [symmetric]
      bassStart_def [symmetric] bassEnd_def [symmetric] bodyEnd_def [symmetric]
    by simp
  show ?thesis
    unfolding eq using avg_unit [OF bs(2,3)] avg_unit [OF bo(2,3)] by simp
qed

lemma sumBins_sum_list:
  "0 \<le> i \<Longrightarrow> e < int (length fd) \<Longrightarrow>
   sumBins fd i e acc = Some (acc + (\<Sum>k\<leftarrow>[i..e]. uint (fd ! nat k)))"
proof (induction fd i e acc rule: sumBins.induct)
  case (1 fd i e acc)
  show ?case
  proof (cases "i \<le> e")
    case False
    then show ?thesis by (simp add: sumBins.simps [of fd i e acc])
  next
    case True
    have b: "binAt fd i = Some (uint (fd ! nat i))"
      using 1(2,3) True by (simp add: binAt_def)
    have "sumBins fd (i + 1) e (acc + uint (fd ! nat i)) =
            Some (acc + uint (fd ! nat i) + (\<Sum>k\<leftarrow>[i + 1..e]. uint (fd ! nat k)))"
      using 1(1) [OF True b] 1(2,3) by simp
    then show ?thesis
      using True b by (simp add: sumBins.simps [of fd i e acc] upto_rec1 [of i e])
  qed
qed

lemma scaled_sum_list:
  "real_of_int (\<Sum>k\<leftarrow>xs. f k) / 255 = (\<Sum>k\<leftarrow>xs. real_of_int (f k) / 255)"
  by (induction xs) (simp_all add: add_divide_distrib)

lemma average_as_spec:
  "real_of_int (\<Sum>k\<leftarrow>[a..b]. uint (fd ! nat k)) / (real_of_int (max 1 (b - a + 1)) * 255)
   = specAverage fd (a, b)"
proof (cases "a \<le> b")
  case True
  then have w: "real_of_int (max 1 (b - a + 1)) = real (length [a..b])"
    by simp
  have "real_of_int (\<Sum>k\<leftarrow>[a..b]. uint (fd ! nat k)) / (real_of_int (max 1 (b - a + 1)) * 255)
        = real_of_int (\<Sum>k\<leftarrow>[a..b]. uint (fd ! nat k)) / 255 / real (length [a..b])"
    unfolding w by simp
  also have "\<dots> = specAverage fd (a, b)"
    using True by (simp add: specAverage_def scaled_sum_list Let_def)
  finally show ?thesis .
next
  case False
  then show ?thesis by (simp add: specAverage_def)
qed

subsection \<open>What each stage changes\<close>

lemma setAudioMeter_fields [simp]:
  "audioLevel (setAudioMeter h x s) = audioLevel s"
  "audioBass (setAudioMeter h x s) = audioBass s"
  "beatPulse (setAudioMeter h x s) = beatPulse s"
  "beatGateUntil (setAudioMeter h x s) = beatGateUntil s"
  "beatHistorySum (setAudioMeter h x s) = beatHistorySum s"
  "beatHistory (setAudioMeter h x s) = beatHistory s"
  by (simp_all add: setAudioMeter_def Let_def)

lemma smooth_fields [simp]:
  "audioBass (smooth b m s) = audioBass s * 0.72 + b * 0.28"
  "audioLevel (smooth b m s) = audioLevel s * 0.84 + m * 0.16"
  "beatPulse (smooth b m s) = beatPulse s"
  "beatGateUntil (smooth b m s) = beatGateUntil s"
  "beatHistorySum (smooth b m s) = beatHistorySum s"
  "beatHistory (smooth b m s) = beatHistory s"
  "meterStyle (smooth b m s) = meterStyle s"
  by (simp_all add: smooth_def Let_def)

lemma pushHistory_fields [simp]:
  "audioBass (pushHistory s) = audioBass s"
  "audioLevel (pushHistory s) = audioLevel s"
  "beatPulse (pushHistory s) = beatPulse s"
  "beatGateUntil (pushHistory s) = beatGateUntil s"
  "meterStyle (pushHistory s) = meterStyle s"
  by (simp_all add: pushHistory_def Let_def)

lemma pushHistory_history:
  "beatHistory (pushHistory s) =
     (if length (beatHistory s) < 42 then beatHistory s else tl (beatHistory s)) @ [audioBass s]"
  by (cases "beatHistory s") (auto simp add: pushHistory_def Let_def)

lemma pushHistory_sum:
  "beatHistorySum (pushHistory s) =
     beatHistorySum s + audioBass s - (if length (beatHistory s) < 42 then 0 else hd (beatHistory s))"
  by (cases "beatHistory s") (auto simp add: pushHistory_def Let_def)

lemma detectBeat_fields [simp]:
  "audioBass (detectBeat t s) = audioBass s"
  "audioLevel (detectBeat t s) = audioLevel s"
  "beatHistorySum (detectBeat t s) = beatHistorySum s"
  "beatHistory (detectBeat t s) = beatHistory s"
  "meterStyle (detectBeat t s) = meterStyle s"
  by (simp_all add: detectBeat_def)

lemma detectBeat_pulse:
  "beatPulse (detectBeat t s) = (if beatCondition t s then 1 else beatPulse s * 0.95)"
  by (simp add: detectBeat_def)

lemma detectBeat_gate:
  "beatGateUntil (detectBeat t s) = (if beatCondition t s then t + 0.17 else beatGateUntil s)"
  by (simp add: detectBeat_def)

subsection \<open>The two branches of the function\<close>

lemma update_unavailable:
  assumes "audioUnavailable h"
  shows "updateAudioReactive t h s =
     Inr (setAudioMeter h (audioLevel s * 0.92 * 1.15 + beatPulse s * 0.9 * 0.35)
            (s\<lparr>beatPulse := beatPulse s * 0.9, audioLevel := audioLevel s * 0.92,
               audioBass := audioBass s * 0.9\<rparr>))"
  using assms by (simp add: updateAudioReactive_def Let_def)

lemma not_triggered_unavailable: "audioUnavailable h \<Longrightarrow> \<not> beatTriggered t h s"
  by (simp add: beatTriggered_def)

lemma update_available:
  assumes "\<not> audioUnavailable h" "frequencyData h = Some fd" "audioContext h = Some sampleRate"
    "bandValues sampleRate fd = Inr (b, m)"
  shows "updateAudioReactive t h s =
     Inr (setAudioMeter h
            (audioLevel (detectBeat t (pushHistory (smooth b m (s\<lparr>beatPulse := beatPulse s * 0.9\<rparr>)))) * 1.4
             + beatPulse (detectBeat t (pushHistory (smooth b m (s\<lparr>beatPulse := beatPulse s * 0.9\<rparr>)))) * 0.5)
            (detectBeat t (pushHistory (smooth b m (s\<lparr>beatPulse := beatPulse s * 0.9\<rparr>)))))"
    and "beatTriggered t h s \<longleftrightarrow>
           beatCondition t (pushHistory (smooth b m (s\<lparr>beatPulse := beatPulse s * 0.9\<rparr>)))"
  using assms by (simp_all add: updateAudioReactive_def beatTriggered_def Let_def)

lemma setAudioMeter_style:
  "meterStyle (setAudioMeter h x s) =
     (if audioMeterFill h then Some (clamp x 0.03 1, 0.3 + clamp x 0.03 1 * 0.7)
      else meterStyle s)"
proof -
  have "max 0.03 (min 1 x) = clamp x 0.03 1"
    by (simp add: clamp_def)
  then show ?thesis by (simp add: setAudioMeter_def Let_def)
qed

lemma clamp_bounds: "0.03 \<le> clamp x 0.03 1" "clamp x 0.03 1 \<le> 1"
  by (simp_all add: clamp_def)

lemma update_Inr_cases [consumes 1, case_names unavailable available]:
  assumes "updateAudioReactive t h s = Inr s'"
  obtains (unavailable) s2 where "audioUnavailable h" "\<not> beatTriggered t h s"
      "s2 = s\<lparr>beatPulse := beatPulse s * 0.9, audioLevel := audioLevel s * 0.92,
               audioBass := audioBass s * 0.9\<rparr>"
      "s' = setAudioMeter h (audioLevel s2 * 1.15 + beatPulse s2 * 0.35) s2"
  | (available) fd sampleRate b m s2 s3 where "\<not> audioUnavailable h"
      "frequencyData h = Some fd" "audioContext h = Some sampleRate"
      "bandValues sampleRate fd = Inr (b, m)"
      "s2 = pushHistory (smooth b m (s\<lparr>beatPulse := beatPulse s * 0.9\<rparr>))"
      "s3 = detectBeat t s2"
      "s' = setAudioMeter h (audioLevel s3 * 1.4 + beatPulse s3 * 0.5) s3"
      "beatTriggered t h s \<longleftrightarrow> beatCondition t s2"
proof (cases "audioUnavailable h")
  case True
  with assms update_unavailable [OF True, of t s] not_triggered_unavailable [OF True]
  show ?thesis by (intro unavailable) auto
next
  case False
  from assms False obtain fd sampleRate
    where h: "frequencyData h = Some fd" "audioContext h = Some sampleRate"
    by (auto simp: updateAudioReactive_def Let_def split: option.splits)
  from assms False h obtain b m where bm: "bandValues sampleRate fd = Inr (b, m)"
    by (auto simp: updateAudioReactive_def Let_def split: sum.splits)
  from update_available [OF False h bm, of t s] assms False h bm
  show ?thesis by (intro available) auto
qed

lemma hostOk_available:
  assumes "hostOk h" "\<not> audioUnavailable h"
  obtains fd sampleRate where "frequencyData h = Some fd" "audioContext h = Some sampleRate"
    "0 < sampleRate" "fd \<noteq> []"
  using assms by (auto simp: hostOk_def split: option.splits)

subsection \<open>Runs of frames\<close>

lemma frames_append:
  "frames (ticks @ rest) s = (case frames ticks s of Inl e \<Rightarrow> Inl e | Inr s' \<Rightarrow> frames rest s')"
  by (induction ticks arbitrary: s) (auto split: sum.splits)

lemma unavailable_run:
  assumes "\<forall>(time, h) \<in> set ticks. audioUnavailable h"
  shows "\<exists>s'. frames ticks s = Inr s'
           \<and> audioLevel s' = audioLevel s * 0.92 ^ length ticks
           \<and> audioBass s' = audioBass s * 0.9 ^ length ticks
           \<and> beatPulse s' = beatPulse s * 0.9 ^ length ticks
           \<and> beatGateUntil s' = beatGateUntil s
           \<and> beatHistorySum s' = beatHistorySum s
           \<and> beatHistory s' = beatHistory s
           \<and> beatTimes ticks s = []"
  using assms
proof (induction ticks arbitrary: s)
  case Nil
  then show ?case by simp
next
  case (Cons tick ticks)
  obtain time h where tick: "tick = (time, h)" by (cases tick)
  from Cons.prems tick have u: "audioUnavailable h"
    and rest: "\<forall>(time, h) \<in> set ticks. audioUnavailable h" by auto
  define s1 where "s1 = setAudioMeter h (audioLevel s * 0.92 * 1.15 + beatPulse s * 0.9 * 0.35)
            (s\<lparr>beatPulse := beatPulse s * 0.9, audioLevel := audioLevel s * 0.92,
               audioBass := audioBass s * 0.9\<rparr>)"
  have step: "updateAudioReactive (time * 0.001) h s = Inr s1"
    unfolding s1_def by (rule update_unavailable [OF u])
  from Cons.IH [OF rest, of s1] obtain s' where s': "frames ticks s1 = Inr s'"
    "audioLevel s' = audioLevel s1 * 0.92 ^ length ticks"
    "audioBass s' = audioBass s1 * 0.9 ^ length ticks"
    "beatPulse s' = beatPulse s1 * 0.9 ^ length ticks"
    "beatGateUntil s' = beatGateUntil s1"
    "beatHistorySum s' = beatHistorySum s1"
    "beatHistory s' = beatHistory s1"
    "beatTimes ticks s1 = []" by blast
  show ?case
    using s' step not_triggered_unavailable [OF u]
    by (simp add: tick s1_def)
qed

lemma geometric_to_zero:
  fixes x c :: real
  assumes "0 \<le> c" "c < 1"
  shows "(\<lambda>n. x * c ^ n) \<longlonglongrightarrow> 0"
  using tendsto_mult_right_zero [OF LIMSEQ_realpow_zero [OF assms]] .

lemma geometric_abs_le:
  fixes x c :: real
  assumes "0 \<le> c" "c \<le> 1"
  shows "\<bar>x * c ^ n\<bar> \<le> \<bar>x\<bar>"
proof -
  have "c ^ n \<le> 1" using assms by (rule power_le_one)
  then have "\<bar>x\<bar> * c ^ n \<le> \<bar>x\<bar> * 1" by (intro mult_left_mono) simp_all
  then show ?thesis using assms by (simp add: abs_mult)
qed

lemma bandValues_one_bin: "bandValues 48000 [x] = Inr (real_of_int (uint x) / 255, real_of_int (uint x) / 255)"
  by (simp add: bandValues_def Let_def sumBins.simps binAt_def)

subsection \<open>The example hosts\<close>

lemma liveHost_fields:
  "\<not> audioUnavailable (liveHost fd)" "frequencyData (liveHost fd) = Some fd"
  "audioContext (liveHost fd) = Some 48000" "audioMeterFill (liveHost fd)"
  by (simp_all add: liveHost_def audioUnavailable_def)

lemma hostOk_liveHost: "fd \<noteq> [] \<Longrightarrow> hostOk (liveHost fd)"
  by (simp add: hostOk_def liveHost_def)

lemma update_liveHost:
  "updateAudioReactive t (liveHost [x]) s =
     Inr (setAudioMeter (liveHost [x])
            (audioLevel (detectBeat t (pushHistory (smooth (real_of_int (uint x) / 255)
               (real_of_int (uint x) / 255) (s\<lparr>beatPulse := beatPulse s * 0.9\<rparr>)))) * 1.4
             + beatPulse (detectBeat t (pushHistory (smooth (real_of_int (uint x) / 255)
               (real_of_int (uint x) / 255) (s\<lparr>beatPulse := beatPulse s * 0.9\<rparr>)))) * 0.5)
            (detectBeat t (pushHistory (smooth (real_of_int (uint x) / 255)
               (real_of_int (uint x) / 255) (s\<lparr>beatPulse := beatPulse s * 0.9\<rparr>)))))"
  by (rule update_available(1) [OF liveHost_fields(1,2,3) bandValues_one_bin])

lemma triggered_liveHost:
  "beatTriggered t (liveHost [x]) s \<longleftrightarrow>
     beatCondition t (pushHistory (smooth (real_of_int (uint x) / 255)
               (real_of_int (uint x) / 255) (s\<lparr>beatPulse := beatPulse s * 0.9\<rparr>)))"
  by (rule update_available(2) [OF liveHost_fields(1,2,3) bandValues_one_bin])

lemmas stage_defs = smooth_def pushHistory_def detectBeat_def beatCondition_def threshold_def
  setAudioMeter_def liveHost_fields Let_def

subsection \<open>Totality on well-formed hosts\<close>

lemma update_total:
  assumes "hostOk h"
  shows "\<exists>s'. updateAudioReactive t h s = Inr s'"
proof (cases "audioUnavailable h")
  case True
  then show ?thesis by (simp add: update_unavailable)
next
  case False
  from hostOk_available [OF assms False] obtain fd sampleRate
    where h: "frequencyData h = Some fd" "audioContext h = Some sampleRate"
      and ok: "0 < sampleRate" "fd \<noteq> []" by blast
  from bandValues_unit [OF ok] obtain b m where "bandValues sampleRate fd = Inr (b, m)" by blast
  from update_available(1) [OF False h this] show ?thesis by blast
qed

lemma frames_total:
  assumes "\<forall>(time, h) \<in> set ticks. hostOk h"
  shows "\<exists>s'. frames ticks s = Inr s'"
  using assms
proof (induction ticks arbitrary: s)
  case Nil
  then show ?case by simp
next
  case (Cons tick ticks)
  obtain time h where tick: "tick = (time, h)" by (cases tick)
  with Cons.prems have "hostOk h" by simp
  from update_total [OF this] obtain s1 where "updateAudioReactive (time * 0.001) h s = Inr s1"
    by blast
  moreover from Cons have "\<exists>s'. frames ticks s1 = Inr s'" by simp
  ultimately show ?case by (simp add: tick)
qed

lemma pushHistory_nonempty: "beatHistory (pushHistory s) \<noteq> []"
  by (simp add: pushHistory_history)

lemma threshold_nonempty:
  "beatHistory s \<noteq> [] \<Longrightarrow>
   threshold s = max 0.14 (beatHistorySum s / real (length (beatHistory s)) * 1.32)"
  by (simp add: threshold_def)

lemma bass_range_inside:
  assumes "60 < sampleRate" and "0 < binCount"
  shows "case specRange 30 180 sampleRate binCount of
           (lo, hi) \<Rightarrow> 0 \<le> lo \<and> lo \<le> hi \<and> hi \<le> int binCount - 1"
proof -
  define hzPerBin where "hzPerBin = (sampleRate / 2) / real binCount"
  have hz: "0 < hzPerBin"
    using assms by (simp add: hzPerBin_def)
  have "30 / hzPerBin = 60 * real binCount / sampleRate"
    using assms by (simp add: hzPerBin_def)
  also have "\<dots> < real binCount"
    using assms by (simp add: divide_less_eq)
  finally have "\<lfloor>30 / hzPerBin\<rfloor> < int binCount"
    by (simp add: floor_less_iff)
  then have up: "\<lfloor>30 / hzPerBin\<rfloor> \<le> int binCount - 1" by simp
  have "30 / hzPerBin \<le> 180 / hzPerBin"
    using hz by (simp add: divide_le_cancel)
  then have mono: "\<lfloor>30 / hzPerBin\<rfloor> \<le> \<lfloor>180 / hzPerBin\<rfloor>"
    by (rule floor_mono)
  have "0 \<le> \<lfloor>30 / hzPerBin\<rfloor>"
    using hz by simp
  with up mono show ?thesis
    unfolding specRange_def Let_def hzPerBin_def [symmetric] by simp
qed

lemma bandValues_average:
  assumes "0 < sampleRate" and "fd \<noteq> []"
  shows "let bass = specAverage fd (specRange 30 180 sampleRate (length fd));
             body = specAverage fd (specRange 0 1800 sampleRate (length fd))
         in bandValues sampleRate fd = Inr (bass, body)
            \<and> 0 \<le> bass \<and> bass \<le> 1 \<and> 0 \<le> body \<and> body \<le> 1"
proof -
  define n where "n = int (length fd)"
  define hzPerBin where "hzPerBin = (sampleRate * 0.5) / real_of_int n"
  define bassStart where "bassStart = max 0 \<lfloor>30 / hzPerBin\<rfloor>"
  define bassEnd where "bassEnd = min (n - 1) \<lfloor>180 / hzPerBin\<rfloor>"
  define bodyEnd where "bodyEnd = min (n - 1) \<lfloor>1800 / hzPerBin\<rfloor>"
  have lo: "0 \<le> bassStart" by (simp add: bassStart_def)
  have hi: "bassEnd < int (length fd)" "bodyEnd < int (length fd)"
    by (simp_all add: bassEnd_def bodyEnd_def n_def)
  have sums: "sumBins fd bassStart bassEnd 0 = Some (\<Sum>k\<leftarrow>[bassStart..bassEnd]. uint (fd ! nat k))"
    "sumBins fd 0 bodyEnd 0 = Some (\<Sum>k\<leftarrow>[0..bodyEnd]. uint (fd ! nat k))"
    using sumBins_sum_list [OF lo hi(1), of 0] sumBins_sum_list [OF _ hi(2), of 0 0] by simp_all
  have eq: "bandValues sampleRate fd =
      Inr (specAverage fd (bassStart, bassEnd), specAverage fd (0, bodyEnd))"
    using assms sums average_as_spec [where a = bassStart and b = bassEnd and fd = fd]
      average_as_spec [where a = 0 and b = bodyEnd and fd = fd]
    unfolding bandValues_def Let_def n_def [symmetric] hzPerBin_def [symmetric]
      bassStart_def [symmetric] bassEnd_def [symmetric] bodyEnd_def [symmetric]
    by simp
  have r1: "specRange 30 180 sampleRate (length fd) = (bassStart, bassEnd)"
    by (simp add: specRange_def bassStart_def bassEnd_def hzPerBin_def n_def)
  have r2: "specRange 0 1800 sampleRate (length fd) = (0, bodyEnd)"
    by (simp add: specRange_def bodyEnd_def hzPerBin_def n_def)
  from bandValues_unit [OF assms] eq r1 r2 show ?thesis by (auto simp: Let_def)
qed

subsection \<open>The history invariant\<close>

lemma historyInv_initial: "historyInv initial"
  by (simp add: historyInv_def initial_def)

subsection \<open>The gate and the pulse\<close>

lemma gate_step:
  assumes "updateAudioReactive t h s = Inr s'"
  shows "if beatTriggered t h s
         then beatGateUntil s < t \<and> beatGateUntil s' = t + 0.17 \<and> beatPulse s' = 1
         else beatGateUntil s' = beatGateUntil s
              \<and> beatPulse s' = (if audioUnavailable h then beatPulse s * 0.9
                                else beatPulse s * 0.9 * 0.95)"
  using assms
proof (cases rule: update_Inr_cases)
  case (unavailable s2)
  then show ?thesis by simp
next
  case (available fd sampleRate b m s2 s3)
  have before: "beatPulse s2 = beatPulse s * 0.9" "beatGateUntil s2 = beatGateUntil s"
    by (simp_all add: available(5))
  have after: "beatPulse s' = (if beatCondition t s2 then 1 else beatPulse s2 * 0.95)"
    "beatGateUntil s' = (if beatCondition t s2 then t + 0.17 else beatGateUntil s2)"
    by (simp_all add: available(6,7) detectBeat_pulse detectBeat_gate)
  have "beatCondition t s2 \<Longrightarrow> beatGateUntil s2 < t"
    by (simp add: beatCondition_def)
  then show ?thesis
    unfolding available(8) after before using available(1) by auto
qed

lemma beatTimes_gate:
  "(\<forall>b \<in> set (beatTimes ticks s). beatGateUntil s < b)
   \<and> sorted_wrt (\<lambda>a b. a + 0.17 < b) (beatTimes ticks s)
   \<and> (\<forall>s'. frames ticks s = Inr s' \<longrightarrow>
         beatGateUntil s \<le> beatGateUntil s'
       \<and> (beatGateUntil s < beatGateUntil s' \<longleftrightarrow> beatTimes ticks s \<noteq> []))"
proof (induction ticks arbitrary: s)
  case Nil
  then show ?case by simp
next
  case (Cons tick ticks)
  obtain time h where tick: "tick = (time, h)" by (cases tick)
  define t where "t = time * 0.001"
  show ?case
  proof (cases "updateAudioReactive t h s")
    case (Inl e)
    then show ?thesis by (simp add: tick t_def)
  next
    case (Inr s1)
    note IH = Cons.IH [of s1]
    show ?thesis
    proof (cases "beatTriggered t h s")
      case True
      with gate_step [OF Inr] have g: "beatGateUntil s < t" "beatGateUntil s1 = t + 0.17"
        by simp_all
      have bt: "beatTimes (tick # ticks) s = t # beatTimes ticks s1"
        using Inr True by (simp add: tick t_def)
      have fr: "frames (tick # ticks) s = frames ticks s1"
        using Inr by (simp add: tick t_def)
      from IH g have later: "\<forall>b \<in> set (beatTimes ticks s1). t + 0.17 < b" by simp
      then have "\<forall>b \<in> set (beatTimes ticks s1). beatGateUntil s < b"
        using g(1) by fastforce
      moreover have "sorted_wrt (\<lambda>a b. a + 0.17 < b) (t # beatTimes ticks s1)"
        using IH later by simp
      moreover have "\<forall>s'. frames ticks s1 = Inr s' \<longrightarrow> beatGateUntil s < beatGateUntil s'"
        using IH g by fastforce
      ultimately show ?thesis
        unfolding bt fr using g(1) by fastforce
    next
      case False
      with gate_step [OF Inr] have g: "beatGateUntil s1 = beatGateUntil s" by simp
      have "beatTimes (tick # ticks) s = beatTimes ticks s1"
        "frames (tick # ticks) s = frames ticks s1"
        using Inr False by (simp_all add: tick t_def)
      then show ?thesis using IH g by simp
    qed
  qed
qed

lemma pulse_run:
  assumes "0 \<le> beatPulse s" and "frames ticks s = Inr s'"
  shows "0 \<le> beatPulse s'
       \<and> (beatTimes ticks s = [] \<longrightarrow> beatPulse s' \<le> beatPulse s * 0.9 ^ length ticks)"
  using assms
proof (induction ticks arbitrary: s)
  case Nil
  then show ?case by simp
next
  case (Cons tick ticks)
  obtain time h where tick: "tick = (time, h)" by (cases tick)
  define t where "t = time * 0.001"
  from Cons.prems(2) obtain s1 where s1: "updateAudioReactive t h s = Inr s1"
    "frames ticks s1 = Inr s'"
    by (auto simp: tick t_def split: sum.splits)
  show ?case
  proof (cases "beatTriggered t h s")
    case True
    with gate_step [OF s1(1)] have "beatPulse s1 = 1" by simp
    with Cons.IH [OF _ s1(2)] have "0 \<le> beatPulse s'" by simp
    moreover have "beatTimes (tick # ticks) s \<noteq> []"
      using s1(1) True by (simp add: tick t_def)
    ultimately show ?thesis by simp
  next
    case False
    with gate_step [OF s1(1)]
    have p: "beatPulse s1 = (if audioUnavailable h then beatPulse s * 0.9 else beatPulse s * 0.9 * 0.95)"
      by simp
    have nonneg: "0 \<le> beatPulse s1" and le: "beatPulse s1 \<le> beatPulse s * 0.9"
      unfolding p using Cons.prems(1) by simp_all
    from Cons.IH [OF nonneg s1(2)] have IH: "0 \<le> beatPulse s'"
      "beatTimes ticks s1 = [] \<longrightarrow> beatPulse s' \<le> beatPulse s1 * 0.9 ^ length ticks"
      by simp_all
    have bt: "beatTimes (tick # ticks) s = beatTimes ticks s1"
      using s1(1) False by (simp add: tick t_def)
    have "beatPulse s' \<le> beatPulse s * 0.9 ^ length (tick # ticks)" if "beatTimes ticks s1 = []"
    proof -
      from IH(2) that have "beatPulse s' \<le> beatPulse s1 * 0.9 ^ length ticks" by simp
      also have "\<dots> \<le> (beatPulse s * 0.9) * 0.9 ^ length ticks"
        using le by (rule mult_right_mono) simp
      finally show ?thesis by simp
    qed
    with IH(1) bt show ?thesis by simp
  qed
qed

lemma decay_44:
  fixes p :: real
  assumes "p \<le> 1" "44 \<le> n"
  shows "p * 0.9 ^ n < 0.01"
proof -
  have "(0.9::real) ^ n \<le> 0.9 ^ 44"
    using assms(2) by (intro power_decreasing) simp_all
  also have "(0.9::real) ^ 44 < 0.01"
    by (simp add: power_divide)
  finally have small: "(0.9::real) ^ n < 0.01" .
  have "p * 0.9 ^ n \<le> 1 * 0.9 ^ n"
    using assms(1) by (intro mult_right_mono) simp_all
  also have "\<dots> = 0.9 ^ n" by simp
  also note small
  finally show ?thesis .
qed

subsection \<open>Binary64 rounding and the rounded history\<close>





lemma ulp_positive: "0 < ulp x"
  by (induction x rule: ulp.induct) (subst ulp.simps, simp)

lemma ulp_significand:
  "0 < x \<Longrightarrow> 2 ^ 52 \<le> x / ulp x \<and> x / ulp x < 2 ^ 53"
proof (induction x rule: ulp.induct)
  case (1 x)
  show ?case
  proof (cases "2 ^ 53 \<le> x")
    case True
    then have "ulp x = 2 * ulp (x / 2)" by (simp add: ulp.simps [of x])
    then have same: "x / ulp x = x / 2 / ulp (x / 2)" by (elim ssubst) simp
    have "2 ^ 52 \<le> x / 2 / ulp (x / 2) \<and> x / 2 / ulp (x / 2) < 2 ^ 53"
      using 1(1) [OF True] 1(3) by simp
    then show ?thesis unfolding same .
  next
    case False
    show ?thesis
    proof (cases "x < 2 ^ 52")
      case True
      with False 1(3) have "ulp x = ulp (2 * x) / 2" by (simp add: ulp.simps [of x])
      then have same: "x / ulp x = 2 * x / ulp (2 * x)" by (elim ssubst) simp
      have "2 ^ 52 \<le> 2 * x / ulp (2 * x) \<and> 2 * x / ulp (2 * x) < 2 ^ 53"
        using 1(2) [OF False] True 1(3) by simp
      then show ?thesis unfolding same .
    next
      case large: False
      with False have "ulp x = 1" by (simp add: ulp.simps [of x])
      with False large show ?thesis by simp
    qed
  qed
qed

lemma nearestEven_near: "\<bar>real_of_int (nearestEven y) - y\<bar> \<le> 1 / 2"
  unfolding nearestEven_def Let_def by (auto; linarith)

lemma toDouble_nearest:
  "\<bar>toDouble x - x\<bar> \<le> ulp \<bar>x\<bar> / 2"
proof (cases "x = 0")
  case True
  then show ?thesis using ulp_positive [of 0] by (simp add: toDouble_def)
next
  case False
  define u where "u = ulp \<bar>x\<bar>"
  have u: "0 < u" unfolding u_def by (rule ulp_positive)
  have "toDouble x - x = (real_of_int (nearestEven (x / u)) - x / u) * u"
    using False u by (simp add: toDouble_def roundTo_def u_def [symmetric] algebra_simps)
  then have "\<bar>toDouble x - x\<bar> = \<bar>real_of_int (nearestEven (x / u)) - x / u\<bar> * u"
    using u by (simp add: abs_mult)
  also have "\<dots> \<le> 1 / 2 * u"
    using u by (intro mult_right_mono nearestEven_near) simp
  finally show ?thesis by (simp add: u_def)
qed

lemma pushHistoryD_fields [simp]:
  "audioBass (pushHistoryD s) = audioBass s"
  by (simp add: pushHistoryD_def Let_def)



lemma bassD_fields [simp]:
  "beatHistory (smoothBassD v s) = beatHistory s"
  "beatHistorySum (smoothBassD v s) = beatHistorySum s"
  "beatHistory (decayBassD s) = beatHistory s"
  "beatHistorySum (decayBassD s) = beatHistorySum s"
  by (simp_all add: smoothBassD_def decayBassD_def)






section \<open>The claims\<close>

text \<open>
  C1. On every audio-active tick (on a host where the audio branch computes with ordinary
  numbers) the update returns a state whose history is not empty, and with
  \<open>average = runningSum / historyLength\<close> and \<open>threshold = max 0.14 (average * 1.32)\<close>
  taken on that state: if the smoothed bass exceeds the threshold and the timestamp
  exceeds the gate of before the tick, then \<open>pulse = 1\<close> and the gate is the timestamp
  plus 0.17; otherwise the gate is unchanged and the pulse is the old pulse times 0.855,
  the product of the baseline 0.9 and the extra 0.95.
\<close>

theorem adaptive_beat_detector:
  assumes "hostOk h" and "\<not> audioUnavailable h"
  shows "\<exists>s'. updateAudioReactive t h s = Inr s' \<and> beatHistory s' \<noteq> [] \<and>
           (let average = beatHistorySum s' / real (length (beatHistory s'));
                thr = max 0.14 (average * 1.32)
            in if audioBass s' > thr \<and> t > beatGateUntil s
               then beatPulse s' = 1 \<and> beatGateUntil s' = t + 0.17
               else beatPulse s' = beatPulse s * 0.855 \<and> beatGateUntil s' = beatGateUntil s)"
proof -
  from update_total [OF assms(1)] obtain s' where s': "updateAudioReactive t h s = Inr s'"
    by blast
  then show ?thesis
  proof (cases rule: update_Inr_cases)
    case (unavailable s2)
    with assms(2) show ?thesis by simp
  next
    case (available fd sampleRate b m s2 s3)
    have ne: "beatHistory s2 \<noteq> []"
      unfolding available(5) by (rule pushHistory_nonempty)
    have same: "beatHistory s' = beatHistory s2" "beatHistorySum s' = beatHistorySum s2"
      "audioBass s' = audioBass s2"
      by (simp_all add: available(6,7))
    have gate: "beatGateUntil s2 = beatGateUntil s" and pulse: "beatPulse s2 = beatPulse s * 0.9"
      by (simp_all add: available(5))
    have cond: "beatCondition t s2 \<longleftrightarrow>
        audioBass s' > max 0.14 (beatHistorySum s' / real (length (beatHistory s')) * 1.32)
        \<and> t > beatGateUntil s"
      by (simp only: beatCondition_def threshold_nonempty [OF ne] same gate)
    have "beatPulse s' = (if beatCondition t s2 then 1 else beatPulse s * 0.855)"
      by (simp add: available(6,7) detectBeat_pulse pulse)
    moreover have "beatGateUntil s' = (if beatCondition t s2 then t + 0.17 else beatGateUntil s)"
      by (simp add: available(6,7) detectBeat_gate gate)
    ultimately have "if beatCondition t s2
        then beatPulse s' = 1 \<and> beatGateUntil s' = t + 0.17
        else beatPulse s' = beatPulse s * 0.855 \<and> beatGateUntil s' = beatGateUntil s"
      by simp
    then have "if audioBass s' > max 0.14 (beatHistorySum s' / real (length (beatHistory s')) * 1.32)
          \<and> t > beatGateUntil s
        then beatPulse s' = 1 \<and> beatGateUntil s' = t + 0.17
        else beatPulse s' = beatPulse s * 0.855 \<and> beatGateUntil s' = beatGateUntil s"
      unfolding cond .
    moreover have "beatHistory s' \<noteq> []"
      using ne same(1) by simp
    ultimately show ?thesis
      unfolding Let_def using s' by blast
  qed
qed

theorem adaptive_beat_detector_witness:
  "hostOk (liveHost [255]) \<and> \<not> audioUnavailable (liveHost [255])
   \<and> (\<exists>s'. updateAudioReactive 1.1 (liveHost [255])
              (initial\<lparr>beatPulse := 0.5, beatHistorySum := 0, beatHistory := [0]\<rparr>) = Inr s'
         \<and> beatHistorySum s' = 0.28 \<and> beatHistory s' = [0, 0.28] \<and> audioBass s' = 0.28
         \<and> beatPulse s' = 1 \<and> beatGateUntil s' = 1.27)"
  using adaptive_beat_detector [of "liveHost [255]" "1.1"
      "initial\<lparr>beatPulse := 0.5, beatHistorySum := 0, beatHistory := [0]\<rparr>"]
  by (simp add: hostOk_liveHost update_liveHost stage_defs initial_def)

text \<open>
  C2. For any sequence of ticks, from any state: any two triggered beats, in the order
  they occur, have timestamps more than 0.17 seconds apart; and over a run that
  completes, \<open>gateUntil\<close> does not decrease, and it increases exactly when some tick of
  the run triggered a beat.
\<close>

theorem refractory_gate:
  "sorted_wrt (\<lambda>earlier later. earlier + 0.17 < later) (beatTimes ticks s)
   \<and> (\<forall>s'. frames ticks s = Inr s' \<longrightarrow>
         beatGateUntil s \<le> beatGateUntil s'
       \<and> (beatGateUntil s < beatGateUntil s' \<longleftrightarrow> beatTimes ticks s \<noteq> []))"
  using beatTimes_gate [of ticks s] by blast

theorem refractory_gate_witness:
  "beatTimes [(1000, liveHost [0]), (1100, liveHost [255]), (1200, liveHost [255]),
              (1300, liveHost [255])] initial = [1.1, 1.3]
   \<and> (\<exists>s'. frames [(1000, liveHost [0]), (1100, liveHost [255]), (1200, liveHost [255]),
                   (1300, liveHost [255])] initial = Inr s'
          \<and> beatGateUntil initial = 0 \<and> beatGateUntil s' = 1.47)
   \<and> sorted_wrt (\<lambda>earlier later. earlier + 0.17 < later) [1.1, 1.3 :: real]"
  using refractory_gate [of "[(1000, liveHost [0]), (1100, liveHost [255]),
      (1200, liveHost [255]), (1300, liveHost [255])]" initial]
  by (simp add: update_liveHost triggered_liveHost stage_defs initial_def)




text \<open>
  C4. For every frequency snapshot with a positive sample rate and at least one bin (a
  magnitude is a byte, so within 0..255), the Band Energy Extractor of lines 239--254
  returns the two averages the specification describes: the bass energy is the average of
  magnitude / 255 over the bins from \<open>floor (30 / hzPerBin)\<close> to \<open>floor (180 / hzPerBin)\<close>,
  the body energy the same from 0 Hz to 1800 Hz, each range cut to \<open>[0, binCount - 1]\<close>,
  with divisor 1 for a range of zero width; and both energies lie in \<open>[0, 1]\<close>. Above a
  sample rate of 60 Hz both ends of the bass range are themselves indices in
  \<open>[0, binCount - 1]\<close> and the range is not empty.
\<close>

theorem bandValues_as_specified:
  assumes "0 < sampleRate" and "fd \<noteq> []"
  shows "let bassRange = specRange 30 180 sampleRate (length fd);
             bodyRange = specRange 0 1800 sampleRate (length fd);
             bass = specAverage fd bassRange;
             body = specAverage fd bodyRange
         in bandValues sampleRate fd = Inr (bass, body)
            \<and> 0 \<le> bass \<and> bass \<le> 1 \<and> 0 \<le> body \<and> body \<le> 1
            \<and> (60 < sampleRate \<longrightarrow>
                  0 \<le> fst bassRange \<and> fst bassRange \<le> snd bassRange
                  \<and> snd bassRange \<le> int (length fd) - 1)"
proof -
  have "case specRange 30 180 sampleRate (length fd) of
           (lo, hi) \<Rightarrow> 0 \<le> lo \<and> lo \<le> hi \<and> hi \<le> int (length fd) - 1"
    if "60 < sampleRate"
    using that assms(2) by (intro bass_range_inside) simp_all
  then have "60 < sampleRate \<longrightarrow>
      0 \<le> fst (specRange 30 180 sampleRate (length fd))
      \<and> fst (specRange 30 180 sampleRate (length fd)) \<le> snd (specRange 30 180 sampleRate (length fd))
      \<and> snd (specRange 30 180 sampleRate (length fd)) \<le> int (length fd) - 1"
    by (auto split: prod.splits)
  with bandValues_average [OF assms] show ?thesis
    by (simp add: Let_def)
qed

theorem bandValues_as_specified_witness:
  "(0::real) < 1000 \<and> [1, 2, 3, 255 :: byte] \<noteq> [] \<and> (60::real) < 1000
   \<and> bandValues 1000 [1, 2, 3, 255] = Inr (1 / 170, 87 / 340)
   \<and> specRange 30 180 1000 4 = (0, 1) \<and> specRange 0 1800 1000 4 = (0, 3)"
  using bandValues_as_specified [of 1000 "[1, 2, 3, 255]"]
  by (simp add: specAverage_def specRange_def Let_def upto_rec1)

text \<open>
  C5. On an audio-active tick the Smoothing Filter sets \<open>level\<close> to
  \<open>level * 0.84 + body * 0.16\<close> and \<open>bass\<close> to \<open>bass * 0.72 + bass_new * 0.28\<close>, where
  \<open>(bass_new, body)\<close> are the band energies of this tick's snapshot. If \<open>level\<close> and
  \<open>bass\<close> are in \<open>[0, 1]\<close> before a tick, active or not, they are in \<open>[0, 1]\<close> after it
  (the band energies are in \<open>[0, 1]\<close> by C4).
\<close>

theorem smoothing_within_unit:
  assumes "hostOk h"
    and "0 \<le> audioLevel s" "audioLevel s \<le> 1" "0 \<le> audioBass s" "audioBass s \<le> 1"
  shows "\<exists>s'. updateAudioReactive t h s = Inr s'
           \<and> 0 \<le> audioLevel s' \<and> audioLevel s' \<le> 1 \<and> 0 \<le> audioBass s' \<and> audioBass s' \<le> 1
           \<and> (\<not> audioUnavailable h \<longrightarrow>
                (\<exists>fd sampleRate bass_new body.
                    frequencyData h = Some fd \<and> audioContext h = Some sampleRate
                  \<and> bandValues sampleRate fd = Inr (bass_new, body)
                  \<and> audioLevel s' = audioLevel s * 0.84 + body * 0.16
                  \<and> audioBass s' = audioBass s * 0.72 + bass_new * 0.28))"
proof (cases "audioUnavailable h")
  case True
  show ?thesis
    using True assms(2-5) by (simp add: update_unavailable [OF True])
next
  case False
  from hostOk_available [OF assms(1) False] obtain fd sampleRate
    where h: "frequencyData h = Some fd" "audioContext h = Some sampleRate"
      and ok: "0 < sampleRate" "fd \<noteq> []" by blast
  from bandValues_unit [OF ok] obtain b m where bm: "bandValues sampleRate fd = Inr (b, m)"
    "0 \<le> b" "b \<le> 1" "0 \<le> m" "m \<le> 1" by blast
  have "audioLevel s * 0.84 + m * 0.16 \<le> 1 * 0.84 + 1 * 0.16"
    using assms(3) bm(5) by (intro add_mono mult_right_mono) simp_all
  moreover have "audioBass s * 0.72 + b * 0.28 \<le> 1 * 0.72 + 1 * 0.28"
    using assms(5) bm(3) by (intro add_mono mult_right_mono) simp_all
  ultimately show ?thesis
    using False h bm assms(2,4) by (simp add: update_available(1) [OF False h bm(1)])
qed

theorem smoothing_within_unit_witness:
  "hostOk (liveHost [255]) \<and> \<not> audioUnavailable (liveHost [255])
   \<and> (\<exists>s'. updateAudioReactive 1 (liveHost [255]) (initial\<lparr>audioLevel := 1, audioBass := 0.5\<rparr>) = Inr s'
         \<and> audioLevel s' = 1 \<and> audioBass s' = 0.64)"
  using smoothing_within_unit [of "liveHost [255]" "initial\<lparr>audioLevel := 1, audioBass := 0.5\<rparr>" 1]
  by (auto simp add: liveHost_def hostOk_def audioUnavailable_def initial_def bandValues_one_bin)

text \<open>
  C6. Each tick first multiplies the pulse by 0.9: the pulse it leaves is 1 when a beat is
  triggered, the old pulse times 0.9 when audio is unavailable, and the old pulse times
  0.9 times 0.95 otherwise. A pulse that is not negative stays so over any run; over a
  run that triggers no beat it is at most the starting pulse times \<open>0.9 ^ n\<close> after
  \<open>n\<close> ticks, hence below 0.01 after 44 ticks when it started at most 1.
\<close>

theorem pulse_decay:
  "(updateAudioReactive t h s = Inr s1 \<longrightarrow>
      beatPulse s1 = (if beatTriggered t h s then 1
                      else if audioUnavailable h then beatPulse s * 0.9
                      else beatPulse s * 0.9 * 0.95))
   \<and> (0 \<le> beatPulse s \<and> frames ticks s = Inr s' \<longrightarrow>
        0 \<le> beatPulse s'
      \<and> (beatTimes ticks s = [] \<longrightarrow>
            beatPulse s' \<le> beatPulse s * 0.9 ^ length ticks
          \<and> (beatPulse s \<le> 1 \<and> 44 \<le> length ticks \<longrightarrow> beatPulse s' < 0.01)))"
proof -
  have one: "beatPulse s1 = (if beatTriggered t h s then 1
                      else if audioUnavailable h then beatPulse s * 0.9
                      else beatPulse s * 0.9 * 0.95)" if "updateAudioReactive t h s = Inr s1"
    using gate_step [OF that] by (simp split: if_splits)
  have run: "0 \<le> beatPulse s'
      \<and> (beatTimes ticks s = [] \<longrightarrow>
            beatPulse s' \<le> beatPulse s * 0.9 ^ length ticks
          \<and> (beatPulse s \<le> 1 \<and> 44 \<le> length ticks \<longrightarrow> beatPulse s' < 0.01))"
    if "0 \<le> beatPulse s" "frames ticks s = Inr s'"
  proof -
    from pulse_run [OF that] have a: "0 \<le> beatPulse s'"
      and b: "beatTimes ticks s = [] \<longrightarrow> beatPulse s' \<le> beatPulse s * 0.9 ^ length ticks"
      by simp_all
    have "beatPulse s' < 0.01"
      if "beatTimes ticks s = []" "beatPulse s \<le> 1" "44 \<le> length ticks"
      using b that(1) decay_44 [OF that(2,3)] by simp
    with a b show ?thesis by blast
  qed
  from one run show ?thesis by blast
qed

theorem pulse_decay_witness:
  "\<exists>s1 s'. updateAudioReactive 5 (liveHost [255]) (initial\<lparr>beatPulse := 1\<rparr>) = Inr s1
      \<and> beatPulse s1 = 0.855
      \<and> (0::real) \<le> beatPulse (initial\<lparr>beatPulse := 1\<rparr>)
      \<and> frames (replicate 44 (0, pausedHost)) (initial\<lparr>beatPulse := 1\<rparr>) = Inr s'
      \<and> beatTimes (replicate 44 (0, pausedHost)) (initial\<lparr>beatPulse := 1\<rparr>) = []
      \<and> beatPulse (initial\<lparr>beatPulse := 1\<rparr>) \<le> 1
      \<and> 44 \<le> length (replicate 44 (0 :: real, pausedHost))
      \<and> 0 \<le> beatPulse s' \<and> beatPulse s' < 0.01"
proof -
  define s where "s = initial\<lparr>beatPulse := 1\<rparr>"
  define ticks where "ticks = replicate 44 (0 :: real, pausedHost)"
  have p: "beatPulse s = 1" by (simp add: s_def initial_def)
  obtain s1 where s1: "updateAudioReactive 5 (liveHost [255]) s = Inr s1"
    by (simp add: update_liveHost)
  have quiet: "\<not> beatTriggered 5 (liveHost [255]) s"
    by (simp add: triggered_liveHost stage_defs s_def initial_def)
  have "\<forall>(time, h) \<in> set ticks. audioUnavailable h"
    by (simp add: ticks_def pausedHost_def audioUnavailable_def)
  from unavailable_run [OF this, of s] obtain s' where s': "frames ticks s = Inr s'"
    "beatTimes ticks s = []" by blast
  have n: "44 \<le> length ticks" by (simp add: ticks_def)
  from pulse_decay [of 5 "liveHost [255]" s s1 ticks s'] s1 s' p n quiet liveHost_fields(1) [of "[255]"]
  have "beatPulse s1 = 0.855" "0 \<le> beatPulse s'" "beatPulse s' < 0.01"
    by simp_all
  with s1 s' p n show ?thesis
    unfolding s_def [symmetric] ticks_def [symmetric] by auto
qed

text \<open>
  C7. After every tick on which the meter element exists, the published meter value (the
  scale written to the element) is \<open>clamp (level * 1.15 + pulse * 0.35) 0.03 1\<close> when
  audio is inactive and \<open>clamp (level * 1.4 + pulse * 0.5) 0.03 1\<close> when it is active,
  with \<open>level\<close> and \<open>pulse\<close> the values the tick has just computed; it lies in
  \<open>[0.03, 1]\<close>, and the opacity written with it is \<open>0.3 + value * 0.7\<close>. Without the
  element, \<^verbatim>\<open>setAudioMeter\<close> returns at once and nothing is published.
\<close>

theorem meter_value:
  assumes "updateAudioReactive t h s = Inr s'"
  shows "if audioMeterFill h
         then \<exists>v. meterStyle s' = Some (v, 0.3 + v * 0.7) \<and> 0.03 \<le> v \<and> v \<le> 1
                \<and> v = (if audioUnavailable h
                       then clamp (audioLevel s' * 1.15 + beatPulse s' * 0.35) 0.03 1
                       else clamp (audioLevel s' * 1.4 + beatPulse s' * 0.5) 0.03 1)
         else meterStyle s' = meterStyle s"
  using assms
proof (cases rule: update_Inr_cases)
  case (unavailable s2)
  have "audioLevel s' = audioLevel s2" "beatPulse s' = beatPulse s2" "meterStyle s2 = meterStyle s"
    by (simp_all add: unavailable(3,4))
  then show ?thesis
    using unavailable(1) clamp_bounds
    by (simp only: unavailable(4) setAudioMeter_style setAudioMeter_fields) simp
next
  case (available fd sampleRate b m s2 s3)
  have "audioLevel s' = audioLevel s3" "beatPulse s' = beatPulse s3" "meterStyle s3 = meterStyle s"
    by (simp_all add: available(5,6,7))
  then show ?thesis
    using available(1) clamp_bounds
    by (simp only: available(7) setAudioMeter_style setAudioMeter_fields) simp
qed

theorem meter_value_witness:
  "\<exists>s'. updateAudioReactive 1.1 (liveHost [255])
            (initial\<lparr>beatPulse := 0.5, beatHistorySum := 0, beatHistory := [0]\<rparr>) = Inr s'
       \<and> audioMeterFill (liveHost [255]) \<and> \<not> audioUnavailable (liveHost [255])
       \<and> audioLevel s' = 0.16 \<and> beatPulse s' = 1
       \<and> clamp (0.16 * 1.4 + 1 * 0.5) 0.03 1 = 0.724
       \<and> meterStyle s' = Some (0.724, 0.3 + 0.724 * 0.7)"
proof -
  obtain s' where s': "updateAudioReactive 1.1 (liveHost [255])
            (initial\<lparr>beatPulse := 0.5, beatHistorySum := 0, beatHistory := [0]\<rparr>) = Inr s'"
    by (simp add: update_liveHost)
  have v: "audioLevel s' = 0.16" "beatPulse s' = 1"
    using s' by (auto simp add: update_liveHost stage_defs initial_def)
  have c: "clamp (0.16 * 1.4 + 1 * 0.5) 0.03 1 = 0.724"
    by (simp add: clamp_def)
  from meter_value [OF s'] liveHost_fields(1,4) [of "[255]"]
  have "meterStyle s' = Some (0.724, 0.3 + 0.724 * 0.7)"
    by (auto simp add: v clamp_def)
  with s' v c liveHost_fields(1,4) [of "[255]"] show ?thesis by blast
qed

text \<open>
  C8. Over any number of consecutive ticks on which audio is unavailable, whatever the
  reason and whatever else the host holds, the update returns normally each time and
  multiplies \<open>level\<close> by 0.92, \<open>bass\<close> by 0.9 and \<open>pulse\<close> by 0.9 alone per tick. So
  \<open>level\<close> and \<open>bass\<close> never grow in magnitude, and their values after \<open>n\<close> such ticks
  tend to 0 as \<open>n\<close> grows.
\<close>

theorem unavailable_ticks_decay:
  assumes "\<forall>(time, h) \<in> set ticks. audioUnavailable h"
  shows "(\<exists>s'. frames ticks s = Inr s'
           \<and> audioLevel s' = audioLevel s * 0.92 ^ length ticks
           \<and> audioBass s' = audioBass s * 0.9 ^ length ticks
           \<and> beatPulse s' = beatPulse s * 0.9 ^ length ticks
           \<and> \<bar>audioLevel s'\<bar> \<le> \<bar>audioLevel s\<bar> \<and> \<bar>audioBass s'\<bar> \<le> \<bar>audioBass s\<bar>)
         \<and> (\<lambda>n. audioLevel s * 0.92 ^ n) \<longlonglongrightarrow> 0
         \<and> (\<lambda>n. audioBass s * 0.9 ^ n) \<longlonglongrightarrow> 0"
proof -
  from unavailable_run [OF assms, of s] obtain s' where s': "frames ticks s = Inr s'"
    "audioLevel s' = audioLevel s * 0.92 ^ length ticks"
    "audioBass s' = audioBass s * 0.9 ^ length ticks"
    "beatPulse s' = beatPulse s * 0.9 ^ length ticks" by blast
  have "\<bar>audioLevel s'\<bar> \<le> \<bar>audioLevel s\<bar>" "\<bar>audioBass s'\<bar> \<le> \<bar>audioBass s\<bar>"
    unfolding s' by (rule geometric_abs_le; simp)+
  with s' have "\<exists>s'. frames ticks s = Inr s'
           \<and> audioLevel s' = audioLevel s * 0.92 ^ length ticks
           \<and> audioBass s' = audioBass s * 0.9 ^ length ticks
           \<and> beatPulse s' = beatPulse s * 0.9 ^ length ticks
           \<and> \<bar>audioLevel s'\<bar> \<le> \<bar>audioLevel s\<bar> \<and> \<bar>audioBass s'\<bar> \<le> \<bar>audioBass s\<bar>"
    by blast
  moreover have "(\<lambda>n. audioLevel s * 0.92 ^ n) \<longlonglongrightarrow> 0"
    by (rule geometric_to_zero) simp_all
  moreover have "(\<lambda>n. audioBass s * 0.9 ^ n) \<longlonglongrightarrow> 0"
    by (rule geometric_to_zero) simp_all
  ultimately show ?thesis by blast
qed

theorem unavailable_ticks_decay_witness:
  "audioUnavailable pausedHost
   \<and> (\<exists>s'. frames [(0, pausedHost), (16, pausedHost)]
              (initial\<lparr>audioLevel := 0.5, audioBass := 0.4, beatPulse := 1\<rparr>) = Inr s'
         \<and> audioLevel s' = 0.4232 \<and> audioBass s' = 0.324 \<and> beatPulse s' = 0.81)"
  using unavailable_ticks_decay [of "[(0, pausedHost), (16, pausedHost)]"
      "initial\<lparr>audioLevel := 0.5, audioBass := 0.4, beatPulse := 1\<rparr>"]
  by (auto simp add: pausedHost_def audioUnavailable_def initial_def power2_eq_square)

text \<open>
  C9. Ticks on which audio is unavailable leave \<open>beatHistory\<close>, \<open>beatHistorySum\<close> and
  \<open>beatGateUntil\<close> exactly as they were (of the module variables only \<open>audioLevel\<close>,
  \<open>audioBass\<close> and \<open>beatPulse\<close> change), no beat is triggered, and the ticks after the
  pause run from a state with the history and gate of before the pause.
\<close>

theorem unavailable_ticks_keep_detector:
  assumes "\<forall>(time, h) \<in> set ticks. audioUnavailable h"
  shows "\<exists>s'. frames ticks s = Inr s'
           \<and> beatHistory s' = beatHistory s
           \<and> beatHistorySum s' = beatHistorySum s
           \<and> beatGateUntil s' = beatGateUntil s
           \<and> frames (ticks @ rest) s = frames rest s'"
proof -
  from unavailable_run [OF assms, of s] obtain s' where s': "frames ticks s = Inr s'"
    "beatGateUntil s' = beatGateUntil s" "beatHistorySum s' = beatHistorySum s"
    "beatHistory s' = beatHistory s" by blast
  have "frames (ticks @ rest) s = frames rest s'"
    by (simp add: frames_append s'(1))
  with s' show ?thesis by blast
qed

theorem unavailable_ticks_keep_detector_witness:
  "audioUnavailable pausedHost
   \<and> (\<exists>s'. frames [(0, pausedHost), (16, pausedHost)]
              (initial\<lparr>audioBass := 0.4, beatGateUntil := 3.17, beatHistorySum := 0.7,
                 beatHistory := [0.3, 0.4]\<rparr>) = Inr s'
         \<and> beatHistory s' = [0.3, 0.4] \<and> beatHistorySum s' = 0.7 \<and> beatGateUntil s' = 3.17)"
  using unavailable_ticks_keep_detector [of "[(0, pausedHost), (16, pausedHost)]"
      "initial\<lparr>audioBass := 0.4, beatGateUntil := 3.17, beatHistorySum := 0.7,
                 beatHistory := [0.3, 0.4]\<rparr>" "[]"]
  by (auto simp add: pausedHost_def audioUnavailable_def initial_def)

text \<open>
  C10. On an audio-active tick entered with an empty history (and so a running sum of 0)
  and a bass that is not negative, the history after the push is the single new smoothed
  bass, the condition \<open>bass > max 0.14 (bass * 1.32)\<close> is false, no beat is triggered,
  the gate is unchanged and the pulse only decays, by 0.9 and by 0.95.
\<close>

theorem first_active_tick_cannot_trigger:
  assumes "hostOk h" and "\<not> audioUnavailable h"
    and "beatHistory s = []" and "historyInv s" and "0 \<le> audioBass s"
  shows "\<not> beatTriggered t h s \<and>
         (\<exists>s'. updateAudioReactive t h s = Inr s'
            \<and> beatHistory s' = [audioBass s'] \<and> beatHistorySum s' = audioBass s'
            \<and> 0 \<le> audioBass s' \<and> \<not> audioBass s' > max 0.14 (audioBass s' * 1.32)
            \<and> beatPulse s' = beatPulse s * 0.9 * 0.95
            \<and> beatGateUntil s' = beatGateUntil s)"
proof -
  from update_total [OF assms(1)] obtain s' where s': "updateAudioReactive t h s = Inr s'"
    by blast
  then show ?thesis
  proof (cases rule: update_Inr_cases)
    case (unavailable s2)
    with assms(2) show ?thesis by simp
  next
    case (available fd sampleRate b m s2 s3)
    from hostOk_available [OF assms(1,2)] available(2,3) have "0 < sampleRate" "fd \<noteq> []"
      by auto
    from bandValues_unit [OF this] available(4) have b: "0 \<le> b" by simp
    have sum0: "beatHistorySum s = 0"
      using assms(3,4) by (simp add: historyInv_def)
    have bass: "audioBass s2 = audioBass s * 0.72 + b * 0.28"
      by (simp add: available(5))
    have nonneg: "0 \<le> audioBass s2"
      unfolding bass using assms(5) b by simp
    have hist: "beatHistory s2 = [audioBass s2]" "beatHistorySum s2 = audioBass s2"
      by (simp_all add: available(5) pushHistory_history pushHistory_sum assms(3) sum0)
    have thr: "threshold s2 = max 0.14 (audioBass s2 * 1.32)"
      by (simp add: threshold_def hist)
    have "audioBass s2 \<le> audioBass s2 * 1.32"
      using nonneg by simp
    then have quiet: "\<not> audioBass s2 > max 0.14 (audioBass s2 * 1.32)"
      by simp
    then have no: "\<not> beatCondition t s2"
      by (simp add: beatCondition_def thr)
    have before: "beatPulse s2 = beatPulse s * 0.9" "beatGateUntil s2 = beatGateUntil s"
      by (simp_all add: available(5))
    have "beatPulse s' = beatPulse s * 0.9 * 0.95" "beatGateUntil s' = beatGateUntil s"
      by (simp_all add: available(6,7) detectBeat_pulse detectBeat_gate no before)
    moreover have "beatHistory s' = [audioBass s']" "beatHistorySum s' = audioBass s'"
      and same: "audioBass s' = audioBass s2"
      by (simp_all add: available(6,7) hist)
    moreover have "0 \<le> audioBass s'" "\<not> audioBass s' > max 0.14 (audioBass s' * 1.32)"
      unfolding same using nonneg quiet by blast+
    moreover have "\<not> beatTriggered t h s"
      using no available(8) by blast
    ultimately show ?thesis
      using s' by blast
  qed
qed

theorem first_active_tick_cannot_trigger_witness:
  "hostOk (liveHost [255]) \<and> \<not> audioUnavailable (liveHost [255])
   \<and> beatHistory (initial\<lparr>beatPulse := 1\<rparr>) = [] \<and> historyInv (initial\<lparr>beatPulse := 1\<rparr>)
   \<and> \<not> beatTriggered 5 (liveHost [255]) (initial\<lparr>beatPulse := 1\<rparr>)
   \<and> (\<exists>s'. updateAudioReactive 5 (liveHost [255]) (initial\<lparr>beatPulse := 1\<rparr>) = Inr s'
         \<and> audioBass s' = 0.28 \<and> beatHistory s' = [0.28] \<and> beatPulse s' = 0.855
         \<and> beatGateUntil s' = 0)"
  using first_active_tick_cannot_trigger [of "liveHost [255]" "initial\<lparr>beatPulse := 1\<rparr>" 5]
  by (simp add: hostOk_liveHost update_liveHost stage_defs initial_def historyInv_def)

end
